theory Spec2Isabelle
  imports Complex_Main "HOL-Library.Sublist" "HOL-Library.Product_Lexorder"
begin

section \<open>Hotel structure and data model\<close>

text \<open>Hotel structure constants of \<^verbatim>\<open>src/app/page.tsx\<close>.\<close>

definition FLOORS :: int where
  "FLOORS = 10"

definition ROOMS_PER_FLOOR :: "int list" where
  "ROOMS_PER_FLOOR = [10, 10, 10, 10, 10, 10, 10, 10, 10, 7]"

definition MAX_ROOMS_PER_BOOKING :: int where
  "MAX_ROOMS_PER_BOOKING = 5"

datatype RoomStatus = AVAILABLE | OCCUPIED | SELECTED

text \<open>The field \<^verbatim>\<open>floor\<close> of the source is \<open>floor'\<close> here, since \<open>floor\<close> is a
  constant of HOL. The numeric fields are JavaScript numbers holding integers.\<close>

record Room =
  number :: int
  floor' :: int
  position :: int
  status :: RoomStatus

text \<open>A travel time that may still be \<^verbatim>\<open>Number.POSITIVE_INFINITY\<close>, the initial value of the
  minimum search.\<close>

datatype jsNumber = Finite int | POSITIVE_INFINITY

fun lessThan' :: "int \<Rightarrow> jsNumber \<Rightarrow> bool" where
  "lessThan' t (Finite m) = (t < m)"
| "lessThan' t POSITIVE_INFINITY = True"

record BookingResult =
  rooms :: "Room list"
  totalTravelTime :: jsNumber
  success :: bool
  message :: string

subsection \<open>JavaScript library operations used by the component\<close>

text \<open>\<^verbatim>\<open>xs.slice(0, n)\<close>: a negative end counts from the end of the array.\<close>

definition slice0 :: "'a list \<Rightarrow> int \<Rightarrow> 'a list" where
  "slice0 xs n = (if n < 0 then take (nat (int (length xs) + n)) xs else take (nat n) xs)"

text \<open>\<^verbatim>\<open>xs.sort(cmp)\<close>: a stable sort under a comparator that returns a negative number, zero
  or a positive number. Stable insertion, the elements taken from the right.\<close>

fun insertBy :: "('a \<Rightarrow> 'a \<Rightarrow> int) \<Rightarrow> 'a \<Rightarrow> 'a list \<Rightarrow> 'a list" where
  "insertBy cmp x [] = [x]"
| "insertBy cmp x (y # ys) = (if cmp x y \<le> 0 then x # y # ys else y # insertBy cmp x ys)"

definition sortBy :: "('a \<Rightarrow> 'a \<Rightarrow> int) \<Rightarrow> 'a list \<Rightarrow> 'a list" where
  "sortBy cmp xs = foldr (insertBy cmp) xs []"

text \<open>Decimal rendering of an integer inside a template string.\<close>

fun showNat :: "nat \<Rightarrow> string" where
  "showNat n = (if n < 10 then [char_of (48 + n)] else showNat (n div 10) @ [char_of (48 + n mod 10)])"

definition showInt :: "int \<Rightarrow> string" where
  "showInt i = (if i < 0 then CHR ''-'' # showNat (nat (- i)) else showNat (nat i))"

text \<open>A loop whose body may fail to return: the iterations run in order on the state, and
  the loop returns nothing as soon as one iteration does not.\<close>

primrec forEachM :: "'a list \<Rightarrow> ('a \<Rightarrow> 's \<Rightarrow> 's option) \<Rightarrow> 's \<Rightarrow> 's option" where
  "forEachM [] body s = Some s"
| "forEachM (x # xs) body s = Option.bind (body x s) (forEachM xs body)"

lemma forEachM_mono [partial_function_mono]:
  assumes "\<And>x s. mono_option (\<lambda>f. B f x s)"
  shows "mono_option (\<lambda>f. forEachM xs (B f) s)"
proof (induction xs arbitrary: s)
  case Nil
  show ?case by (simp add: option.const_mono)
next
  case (Cons a xs)
  show ?case
    unfolding forEachM.simps
    by (rule bind_mono [OF assms]) (rule Cons.IH)
qed

section \<open>Inventory\<close>

text \<open>\<^verbatim>\<open>initializeRooms\<close>: floors 1 to \<open>FLOORS\<close>, positions 1 to the floor's room count.\<close>

definition initializeRooms :: "Room list" where
  "initializeRooms =
     concat (map (\<lambda>floor.
       let roomsOnFloor = ROOMS_PER_FLOOR ! nat (floor - 1) in
       map (\<lambda>position.
         let roomNumber = (if floor = 10 then 1000 + position else floor * 100 + position) in
         \<lparr>number = roomNumber, floor' = floor, position = position, status = AVAILABLE\<rparr>)
         [1..roomsOnFloor])
       [1..FLOORS])"

section \<open>Travel time\<close>

definition calculateTravelTime :: "Room \<Rightarrow> Room \<Rightarrow> int" where
  "calculateTravelTime room1 room2 =
     (let verticalTime = \<bar>floor' room1 - floor' room2\<bar> * 2;
          horizontalTime = (if floor' room1 = floor' room2 then \<bar>position room1 - position room2\<bar> else 0)
      in verticalTime + horizontalTime)"

definition byFloorThenPosition :: "Room \<Rightarrow> Room \<Rightarrow> int" where
  "byFloorThenPosition a b =
     (if floor' a \<noteq> floor' b then floor' a - floor' b else position a - position b)"

definition byPosition :: "Room \<Rightarrow> Room \<Rightarrow> int" where
  "byPosition a b = position a - position b"

text \<open>The loop of \<^verbatim>\<open>calculateTotalTravelTime\<close> over consecutive pairs of the sorted rooms.\<close>

fun sumConsecutive :: "Room list \<Rightarrow> int \<Rightarrow> int" where
  "sumConsecutive (a # b # rest) totalTime = sumConsecutive (b # rest) (totalTime + calculateTravelTime a b)"
| "sumConsecutive _ totalTime = totalTime"

definition calculateTotalTravelTime :: "Room list \<Rightarrow> int" where
  "calculateTotalTravelTime roomSet =
     (if length roomSet \<le> 1 then 0
      else sumConsecutive (sortBy byFloorThenPosition roomSet) 0)"

section \<open>Room allocation\<close>

definition getAvailableRoomsOnFloor :: "Room list \<Rightarrow> int \<Rightarrow> Room list" where
  "getAvailableRoomsOnFloor inventory fl =
     sortBy byPosition (filter (\<lambda>room. floor' room = fl \<and> status room = AVAILABLE) inventory)"

text \<open>\<^verbatim>\<open>generateCombinations\<close> recurses on \<open>size - 1\<close> and stops only at \<open>size = 1\<close>, so it is
  a partial function: \<open>None\<close> is a call that does not return. The loop index runs over
  \<open>0 \<le> i \<le> length - size\<close>.\<close>

partial_function (option) generateCombinations :: "Room list \<Rightarrow> int \<Rightarrow> Room list list option" where
  "generateCombinations rs size' =
     (if size' = 1 then Some (map (\<lambda>room. [room]) rs)
      else forEachM [0 ..< nat (int (length rs) - size' + 1)]
             (\<lambda>i combinations.
                Option.bind (generateCombinations (drop (i + 1) rs) (size' - 1))
                  (\<lambda>smaller. Some (combinations @ map (\<lambda>combo. rs ! i # combo) smaller)))
             [])"

declare generateCombinations.simps [code]

text \<open>Strategy 1, the loop over the floors: \<open>Some\<close> is the early \<^verbatim>\<open>return\<close> of a booking on
  one floor, \<open>None\<close> is the loop running to its end.\<close>

fun sameFloorSearch :: "Room list \<Rightarrow> int \<Rightarrow> int list \<Rightarrow> BookingResult option" where
  "sameFloorSearch inventory numRooms [] = None"
| "sameFloorSearch inventory numRooms (fl # fls) =
     (let floorRooms = getAvailableRoomsOnFloor inventory fl in
      if int (length floorRooms) \<ge> numRooms then
        (let selectedRooms = slice0 floorRooms numRooms in
         Some \<lparr>rooms = selectedRooms,
               totalTravelTime = Finite (calculateTotalTravelTime selectedRooms),
               success = True,
               message = ''Booked '' @ showInt numRooms @ '' rooms on Floor '' @ showInt fl\<rparr>)
      else sameFloorSearch inventory numRooms fls)"

text \<open>The body of \<^verbatim>\<open>combinations.forEach\<close>, on the pair of \<^verbatim>\<open>bestCombination\<close> and
  \<^verbatim>\<open>minTravelTime\<close>.\<close>

definition keepBetter :: "Room list \<Rightarrow> Room list \<times> jsNumber \<Rightarrow> Room list \<times> jsNumber" where
  "keepBetter combination best =
     (let travelTime = calculateTotalTravelTime combination in
      if lessThan' travelTime (snd best) then (combination, Finite travelTime) else best)"

text \<open>Strategy 2: the exhaustive search behind its performance guard, the greedy choice
  otherwise. \<open>None\<close> is \<^verbatim>\<open>generateCombinations\<close> not returning.\<close>

definition crossFloorSearch :: "Room list \<Rightarrow> int \<Rightarrow> (Room list \<times> jsNumber) option" where
  "crossFloorSearch availableRooms numRooms =
     (if numRooms \<le> 3 \<or> length availableRooms \<le> 20 then
        Option.bind (generateCombinations availableRooms numRooms)
          (\<lambda>combinations. Some (fold keepBetter combinations ([], POSITIVE_INFINITY)))
      else
        (let bestCombination = slice0 (sortBy byFloorThenPosition availableRooms) numRooms in
         Some (bestCombination, Finite (calculateTotalTravelTime bestCombination))))"

text \<open>\<^verbatim>\<open>findOptimalRooms\<close>, on the inventory that the component holds in its state. \<open>None\<close> is
  a call that does not return.\<close>

definition findOptimalRooms :: "Room list \<Rightarrow> int \<Rightarrow> BookingResult option" where
  "findOptimalRooms inventory numRooms =
     (if numRooms > MAX_ROOMS_PER_BOOKING then
        Some \<lparr>rooms = [], totalTravelTime = Finite 0, success = False,
              message = ''Maximum '' @ showInt MAX_ROOMS_PER_BOOKING @ '' rooms per booking allowed''\<rparr>
      else
        (let availableRooms = filter (\<lambda>room. status room = AVAILABLE) inventory in
         if int (length availableRooms) < numRooms then
           Some \<lparr>rooms = [], totalTravelTime = Finite 0, success = False,
                 message = ''Only '' @ showInt (int (length availableRooms)) @ '' rooms available''\<rparr>
         else
           (case sameFloorSearch inventory numRooms [1..FLOORS] of
              Some result \<Rightarrow> Some result
            | None \<Rightarrow>
                Option.bind (crossFloorSearch availableRooms numRooms)
                  (\<lambda>(bestCombination, minTravelTime).
                     if int (length bestCombination) = numRooms then
                       Some \<lparr>rooms = bestCombination, totalTravelTime = minTravelTime, success = True,
                             message = ''Booked '' @ showInt numRooms @ '' rooms across multiple floors''\<rparr>
                     else
                       Some \<lparr>rooms = [], totalTravelTime = Finite 0, success = False,
                             message = ''Unable to find optimal room combination''\<rparr>))))"

section \<open>Occupancy\<close>

text \<open>The state of the component.\<close>

record HotelState =
  roomsState :: "Room list"
  requestedRooms :: int
  lastBooking :: "BookingResult option"

text \<open>The part of \<^verbatim>\<open>bookRooms\<close> that writes a result into the rooms.\<close>

definition commitBooking :: "Room list \<Rightarrow> BookingResult \<Rightarrow> Room list" where
  "commitBooking prevRooms result =
     (if success result then
        map (\<lambda>room.
          let isSelected = list_ex (\<lambda>selectedRoom. number selectedRoom = number room) (rooms result) in
          if isSelected then room\<lparr>status := SELECTED\<rparr> else room) prevRooms
      else prevRooms)"

definition bookRooms :: "HotelState \<Rightarrow> HotelState option" where
  "bookRooms s =
     Option.bind (findOptimalRooms (roomsState s) (requestedRooms s))
       (\<lambda>result. Some (s\<lparr>roomsState := commitBooking (roomsState s) result,
                           lastBooking := Some result\<rparr>))"

text \<open>\<^verbatim>\<open>generateRandomOccupancy\<close>: \<open>random i\<close> is the value that \<^verbatim>\<open>Math.random()\<close> returns for the
  room at index \<open>i\<close>.\<close>

definition generateRandomOccupancy :: "(nat \<Rightarrow> real) \<Rightarrow> HotelState \<Rightarrow> HotelState" where
  "generateRandomOccupancy random s =
     s\<lparr>roomsState :=
         map (\<lambda>(i, room). room\<lparr>status := (if random i < 0.3 then OCCUPIED else AVAILABLE)\<rparr>)
           (enumerate 0 (roomsState s)),
       lastBooking := None\<rparr>"

definition resetBookings :: "HotelState \<Rightarrow> HotelState" where
  "resetBookings s = s\<lparr>roomsState := initializeRooms, lastBooking := None\<rparr>"

section \<open>Auxiliary facts\<close>

subsection \<open>Rendering, slicing and sorting\<close>

declare showNat.simps [simp del]

lemma showInt_small [simp]:
  "showInt 0 = ''0''" "showInt 1 = ''1''" "showInt 5 = ''5''"
  by code_simp+

lemma floors_list: "[1..FLOORS] = [1, 2, 3, 4, 5, 6, 7, 8, 9, 10]"
  by code_simp

lemma slice0_take: "\<exists>k. slice0 xs n = take k xs"
  by (auto simp: slice0_def)

lemma slice0_nonneg: "0 \<le> n \<Longrightarrow> slice0 xs n = take (nat n) xs"
  by (simp add: slice0_def)

lemma length_insertBy [simp]: "length (insertBy cmp x ys) = Suc (length ys)"
  by (induction ys) simp_all

lemma set_insertBy [simp]: "set (insertBy cmp x ys) = insert x (set ys)"
  by (induction ys) auto

lemma distinct_map_insertBy [simp]:
  "distinct (map f (insertBy cmp x ys)) = (f x \<notin> f ` set ys \<and> distinct (map f ys))"
  by (induction ys) auto

lemma sortBy_Cons: "sortBy cmp (x # xs) = insertBy cmp x (sortBy cmp xs)"
  by (simp add: sortBy_def)

lemma length_sortBy [simp]: "length (sortBy cmp xs) = length xs"
  by (induction xs) (simp_all add: sortBy_def)

lemma set_sortBy [simp]: "set (sortBy cmp xs) = set xs"
  by (induction xs) (simp_all add: sortBy_def)

lemma distinct_map_sortBy [simp]: "distinct (map f (sortBy cmp xs)) = distinct (map f xs)"
proof (induction xs)
  case Nil
  show ?case by (simp add: sortBy_def)
next
  case (Cons x xs)
  then show ?case by (simp add: sortBy_Cons)
qed

text \<open>A comparator that orders by a key makes \<open>sortBy\<close> the stable insertion sort by that key.\<close>

lemma insertBy_insort_key:
  assumes "\<And>x y. (cmp x y \<le> 0) = (f x \<le> f y)"
  shows "insertBy cmp x ys = insort_key f x ys"
  by (induction ys) (simp_all add: assms)

lemma sortBy_sort_key:
  assumes "\<And>x y. (cmp x y \<le> 0) = (f x \<le> f y)"
  shows "sortBy cmp xs = sort_key f xs"
  by (induction xs) (simp_all add: sortBy_def insertBy_insort_key [OF assms])

lemma sortBy_byPosition: "sortBy byPosition xs = sort_key position xs"
  by (rule sortBy_sort_key) (simp add: byPosition_def)

lemma sortBy_byFloorThenPosition:
  "sortBy byFloorThenPosition xs = sort_key (\<lambda>r. (floor' r, position r)) xs"
  by (rule sortBy_sort_key) (auto simp: byFloorThenPosition_def)

section \<open>The fast failures of the allocator\<close>

text \<open>
  C4. A request for more than \<open>MAX_ROOMS_PER_BOOKING\<close> (5) rooms fails on every inventory: the
  result has \<open>success = False\<close>, no rooms, travel time 0 and the message naming the cap. The
  result is the same for any two inventories, so no status is consulted.
\<close>

theorem findOptimalRooms_exceeds_cap:
  "MAX_ROOMS_PER_BOOKING < numRooms \<Longrightarrow>
     findOptimalRooms inventory numRooms =
       Some \<lparr>rooms = [], totalTravelTime = Finite 0, success = False,
             message = ''Maximum 5 rooms per booking allowed''\<rparr>
     \<and> findOptimalRooms inventory numRooms = findOptimalRooms inventory' numRooms"
  by (simp add: findOptimalRooms_def MAX_ROOMS_PER_BOOKING_def)

theorem findOptimalRooms_exceeds_cap_witness:
  "MAX_ROOMS_PER_BOOKING < 6
   \<and> findOptimalRooms initializeRooms 6 =
       Some \<lparr>rooms = [], totalTravelTime = Finite 0, success = False,
             message = ''Maximum 5 rooms per booking allowed''\<rparr>
   \<and> findOptimalRooms initializeRooms 6 = findOptimalRooms [] 6"
proof -
  have h: "MAX_ROOMS_PER_BOOKING < 6"
    by (simp add: MAX_ROOMS_PER_BOOKING_def)
  from findOptimalRooms_exceeds_cap [OF h, of initializeRooms "[]"] h show ?thesis
    by blast
qed

text \<open>
  C5. A request within the cap for more rooms than are Available fails: the result has
  \<open>success = False\<close>, no rooms, travel time 0 and the message giving the number of
  Available rooms.
\<close>

theorem findOptimalRooms_insufficient:
  "numRooms \<le> MAX_ROOMS_PER_BOOKING \<Longrightarrow>
   int (length (filter (\<lambda>room. status room = AVAILABLE) inventory)) < numRooms \<Longrightarrow>
     findOptimalRooms inventory numRooms =
       Some \<lparr>rooms = [], totalTravelTime = Finite 0, success = False,
             message = ''Only ''
               @ showInt (int (length (filter (\<lambda>room. status room = AVAILABLE) inventory)))
               @ '' rooms available''\<rparr>"
  by (simp add: findOptimalRooms_def)

theorem findOptimalRooms_insufficient_witness:
  "findOptimalRooms
     [\<lparr>number = 101, floor' = 1, position = 1, status = AVAILABLE\<rparr>,
      \<lparr>number = 102, floor' = 1, position = 2, status = OCCUPIED\<rparr>,
      \<lparr>number = 201, floor' = 2, position = 1, status = SELECTED\<rparr>] 5 =
     Some \<lparr>rooms = [], totalTravelTime = Finite 0, success = False,
           message = ''Only 1 rooms available''\<rparr>"
  using findOptimalRooms_insufficient
    [of 5 "[\<lparr>number = 101, floor' = 1, position = 1, status = AVAILABLE\<rparr>,
            \<lparr>number = 102, floor' = 1, position = 2, status = OCCUPIED\<rparr>,
            \<lparr>number = 201, floor' = 2, position = 1, status = SELECTED\<rparr>]"]
  by (simp add: MAX_ROOMS_PER_BOOKING_def)

text \<open>
  C10. A request for 0 rooms succeeds on every inventory: the loop of Strategy 1 accepts
  floor 1, which has at least 0 Available rooms, and the result has no rooms, travel time 0
  and the message of a booking of 0 rooms on floor 1.
\<close>

theorem findOptimalRooms_zero:
  "findOptimalRooms inventory 0 =
     Some \<lparr>rooms = [], totalTravelTime = Finite 0, success = True,
           message = ''Booked 0 rooms on Floor 1''\<rparr>"
  by (simp add: findOptimalRooms_def MAX_ROOMS_PER_BOOKING_def floors_list slice0_def
      calculateTotalTravelTime_def)

section \<open>Committing, randomizing and resetting\<close>

lemma initializeRooms_all_available:
  "list_all (\<lambda>room. status room = AVAILABLE) initializeRooms"
  by code_simp

lemma initializeRooms_length: "length initializeRooms = 97"
  by code_simp

lemma list_ex_number:
  "list_ex (\<lambda>selectedRoom. number selectedRoom = number room) selected
   = (number room \<in> number ` set selected)"
  unfolding list_ex_iff image_iff by (rule bex_cong [OF refl]) (rule eq_commute)

text \<open>
  C7. Committing a result with \<open>success = False\<close> leaves the inventory as it is. Committing a
  result with \<open>success = True\<close> keeps the number of rooms; a room whose number is among the
  numbers of the result's rooms becomes the same room with status Selected, and every other
  room stays as it is.
\<close>

theorem commitBooking_frame:
  "(\<not> success result \<longrightarrow> commitBooking inventory result = inventory)
   \<and> (success result \<longrightarrow>
        length (commitBooking inventory result) = length inventory
        \<and> (\<forall>i < length inventory.
              (number (inventory ! i) \<in> number ` set (rooms result) \<longrightarrow>
                 commitBooking inventory result ! i = (inventory ! i)\<lparr>status := SELECTED\<rparr>)
              \<and> (number (inventory ! i) \<notin> number ` set (rooms result) \<longrightarrow>
                 commitBooking inventory result ! i = inventory ! i)))"
  by (simp add: commitBooking_def list_ex_number)

theorem commitBooking_frame_witness:
  "commitBooking
     [\<lparr>number = 101, floor' = 1, position = 1, status = AVAILABLE\<rparr>,
      \<lparr>number = 102, floor' = 1, position = 2, status = OCCUPIED\<rparr>]
     \<lparr>rooms = [], totalTravelTime = Finite 0, success = False,
      message = ''Only 1 rooms available''\<rparr>
   = [\<lparr>number = 101, floor' = 1, position = 1, status = AVAILABLE\<rparr>,
      \<lparr>number = 102, floor' = 1, position = 2, status = OCCUPIED\<rparr>]
   \<and> commitBooking
     [\<lparr>number = 101, floor' = 1, position = 1, status = AVAILABLE\<rparr>,
      \<lparr>number = 102, floor' = 1, position = 2, status = OCCUPIED\<rparr>]
     \<lparr>rooms = [\<lparr>number = 101, floor' = 1, position = 1, status = AVAILABLE\<rparr>],
      totalTravelTime = Finite 0, success = True, message = ''Booked 1 rooms on Floor 1''\<rparr> ! 0
   = \<lparr>number = 101, floor' = 1, position = 1, status = SELECTED\<rparr>
   \<and> commitBooking
     [\<lparr>number = 101, floor' = 1, position = 1, status = AVAILABLE\<rparr>,
      \<lparr>number = 102, floor' = 1, position = 2, status = OCCUPIED\<rparr>]
     \<lparr>rooms = [\<lparr>number = 101, floor' = 1, position = 1, status = AVAILABLE\<rparr>],
      totalTravelTime = Finite 0, success = True, message = ''Booked 1 rooms on Floor 1''\<rparr> ! 1
   = \<lparr>number = 102, floor' = 1, position = 2, status = OCCUPIED\<rparr>"
  using commitBooking_frame
    [of "\<lparr>rooms = [], totalTravelTime = Finite 0, success = False,
          message = ''Only 1 rooms available''\<rparr>"
        "[\<lparr>number = 101, floor' = 1, position = 1, status = AVAILABLE\<rparr>,
          \<lparr>number = 102, floor' = 1, position = 2, status = OCCUPIED\<rparr>]"]
    commitBooking_frame
    [of "\<lparr>rooms = [\<lparr>number = 101, floor' = 1, position = 1, status = AVAILABLE\<rparr>],
          totalTravelTime = Finite 0, success = True, message = ''Booked 1 rooms on Floor 1''\<rparr>"
        "[\<lparr>number = 101, floor' = 1, position = 1, status = AVAILABLE\<rparr>,
          \<lparr>number = 102, floor' = 1, position = 2, status = OCCUPIED\<rparr>]"]
  by (simp add: less_Suc_eq numeral_2_eq_2)

text \<open>
  C8. After \<open>resetBookings\<close> the rooms are those of \<open>initializeRooms\<close>: 97 rooms, every one
  Available. After \<open>generateRandomOccupancy\<close>, whatever the random draws are, the inventory
  has as many rooms as before and every room is Available or Occupied, none Selected.
\<close>

theorem reset_randomize_statuses:
  "roomsState (resetBookings s) = initializeRooms
   \<and> length (roomsState (resetBookings s)) = 97
   \<and> (\<forall>room \<in> set (roomsState (resetBookings s)). status room = AVAILABLE)
   \<and> length (roomsState (generateRandomOccupancy random s)) = length (roomsState s)
   \<and> (\<forall>room \<in> set (roomsState (generateRandomOccupancy random s)).
         (status room = AVAILABLE \<or> status room = OCCUPIED) \<and> status room \<noteq> SELECTED)"
  using initializeRooms_all_available
  by (auto simp: resetBookings_def generateRandomOccupancy_def initializeRooms_length list_all_iff
      split: if_splits)

theorem reset_randomize_statuses_witness:
  "status (hd (roomsState (resetBookings
      \<lparr>roomsState = [\<lparr>number = 101, floor' = 1, position = 1, status = SELECTED\<rparr>,
                      \<lparr>number = 102, floor' = 1, position = 2, status = OCCUPIED\<rparr>],
       requestedRooms = 1, lastBooking = None\<rparr>))) = AVAILABLE
   \<and> map status (roomsState (generateRandomOccupancy (\<lambda>i. if i = 0 then 0.1 else 0.9)
      \<lparr>roomsState = [\<lparr>number = 101, floor' = 1, position = 1, status = SELECTED\<rparr>,
                      \<lparr>number = 102, floor' = 1, position = 2, status = OCCUPIED\<rparr>],
       requestedRooms = 1, lastBooking = None\<rparr>)) = [OCCUPIED, AVAILABLE]
   \<and> status (hd (roomsState (generateRandomOccupancy (\<lambda>i. if i = 0 then 0.1 else 0.9)
      \<lparr>roomsState = [\<lparr>number = 101, floor' = 1, position = 1, status = SELECTED\<rparr>,
                      \<lparr>number = 102, floor' = 1, position = 2, status = OCCUPIED\<rparr>],
       requestedRooms = 1, lastBooking = None\<rparr>))) \<noteq> SELECTED"
proof -
  let ?s = "\<lparr>roomsState = [\<lparr>number = 101, floor' = 1, position = 1, status = SELECTED\<rparr>,
                           \<lparr>number = 102, floor' = 1, position = 2, status = OCCUPIED\<rparr>],
            requestedRooms = 1, lastBooking = None\<rparr>"
  let ?random = "\<lambda>i::nat. if i = 0 then 0.1 else (0.9::real)"
  note facts = reset_randomize_statuses [of ?s ?random]
  have reset: "hd (roomsState (resetBookings ?s)) \<in> set (roomsState (resetBookings ?s))"
    using facts by (intro hd_in_set) auto
  have random: "hd (roomsState (generateRandomOccupancy ?random ?s))
                  \<in> set (roomsState (generateRandomOccupancy ?random ?s))"
    using facts by (intro hd_in_set) auto
  have statuses: "map status (roomsState (generateRandomOccupancy ?random ?s)) = [OCCUPIED, AVAILABLE]"
    by (simp add: generateRandomOccupancy_def)
  from facts reset random statuses show ?thesis
    by blast
qed

section \<open>Strategy 1: the booking on one floor\<close>

lemma length_filter_conj_le:
  "length (filter (\<lambda>x. P x \<and> Q x) xs) \<le> length (filter Q xs)"
  by (induction xs) auto

lemma length_getAvailableRoomsOnFloor:
  "length (getAvailableRoomsOnFloor inventory fl)
   = length (filter (\<lambda>room. floor' room = fl \<and> status room = AVAILABLE) inventory)"
  by (simp add: getAvailableRoomsOnFloor_def)

lemma set_getAvailableRoomsOnFloor:
  "set (getAvailableRoomsOnFloor inventory fl)
   = {room \<in> set inventory. floor' room = fl \<and> status room = AVAILABLE}"
  by (auto simp: getAvailableRoomsOnFloor_def)

lemma sorted_getAvailableRoomsOnFloor:
  "sorted (map position (getAvailableRoomsOnFloor inventory fl))"
  by (simp add: getAvailableRoomsOnFloor_def sortBy_byPosition)

lemma sameFloorSearch_skip:
  "\<forall>f \<in> set pre. int (length (getAvailableRoomsOnFloor inventory f)) < numRooms \<Longrightarrow>
   sameFloorSearch inventory numRooms (pre @ fls) = sameFloorSearch inventory numRooms fls"
  by (induction pre) simp_all

lemma sameFloorSearch_None:
  "(sameFloorSearch inventory numRooms fls = None)
   = (\<forall>f \<in> set fls. int (length (getAvailableRoomsOnFloor inventory f)) < numRooms)"
  by (induction fls) (auto simp: Let_def)

lemma sameFloorSearch_Some:
  "sameFloorSearch inventory numRooms fls = Some result \<Longrightarrow>
   \<exists>fl \<in> set fls. numRooms \<le> int (length (getAvailableRoomsOnFloor inventory fl))
      \<and> rooms result = slice0 (getAvailableRoomsOnFloor inventory fl) numRooms
      \<and> totalTravelTime result = Finite (calculateTotalTravelTime (rooms result))
      \<and> success result"
  by (induction fls) (auto simp: Let_def split: if_splits)

lemma take_sorted_least:
  assumes "sorted (map f xs)" "x \<in> set (take k xs)" "y \<in> set xs" "y \<notin> set (take k xs)"
  shows "f x \<le> f y"
proof -
  have "y \<in> set (drop k xs)"
    using assms(3,4) by (metis Un_iff append_take_drop_id set_append)
  moreover have "sorted (map f (take k xs) @ map f (drop k xs))"
    using assms(1) by (metis append_take_drop_id map_append)
  ultimately show ?thesis
    using assms(2) by (auto simp: sorted_append)
qed

text \<open>
  C2. Let the request be between 1 and 5 rooms and let \<open>fl\<close> be the lowest of the floors 1 to
  10 with at least that many Available rooms. Then the allocation succeeds with the first
  \<open>numRooms\<close> rooms of that floor's Available rooms in ascending position: they are
  \<open>numRooms\<close> Available rooms of floor \<open>fl\<close>, in ascending position, and no Available room
  of the floor that was left out has a smaller position than a selected one. The travel
  time of other floors plays no part.
\<close>

theorem sameFloor_lowest_floor:
  assumes "1 \<le> numRooms" and "numRooms \<le> MAX_ROOMS_PER_BOOKING"
    and "1 \<le> fl" and "fl \<le> FLOORS"
    and "numRooms \<le> int (length (filter (\<lambda>room. floor' room = fl \<and> status room = AVAILABLE) inventory))"
    and "\<forall>f \<in> {1 ..< fl}.
           int (length (filter (\<lambda>room. floor' room = f \<and> status room = AVAILABLE) inventory)) < numRooms"
  shows "\<exists>result. findOptimalRooms inventory numRooms = Some result
           \<and> success result
           \<and> rooms result = take (nat numRooms) (getAvailableRoomsOnFloor inventory fl)
           \<and> totalTravelTime result = Finite (calculateTotalTravelTime (rooms result))
           \<and> message result = ''Booked '' @ showInt numRooms @ '' rooms on Floor '' @ showInt fl
           \<and> int (length (rooms result)) = numRooms
           \<and> sorted (map position (rooms result))
           \<and> (\<forall>room \<in> set (rooms result).
                 room \<in> set inventory \<and> floor' room = fl \<and> status room = AVAILABLE)
           \<and> (\<forall>room \<in> set (rooms result). \<forall>other \<in> set inventory.
                 floor' other = fl \<and> status other = AVAILABLE \<and> other \<notin> set (rooms result)
                 \<longrightarrow> position room \<le> position other)"
proof -
  let ?floorRooms = "getAvailableRoomsOnFloor inventory fl"
  let ?selected = "take (nat numRooms) ?floorRooms"
  let ?result = "\<lparr>rooms = ?selected, totalTravelTime = Finite (calculateTotalTravelTime ?selected),
                   success = True,
                   message = ''Booked '' @ showInt numRooms @ '' rooms on Floor '' @ showInt fl\<rparr>"
  have enough: "numRooms \<le> int (length ?floorRooms)"
    using assms(5) by (simp add: length_getAvailableRoomsOnFloor)
  have lower: "\<forall>f \<in> set [1 .. fl - 1]. int (length (getAvailableRoomsOnFloor inventory f)) < numRooms"
    using assms(6) by (simp add: length_getAvailableRoomsOnFloor)
  have split: "[1 .. FLOORS] = [1 .. fl - 1] @ fl # [fl + 1 .. FLOORS]"
    using assms(3,4) by (rule upto_split3)
  have "sameFloorSearch inventory numRooms [1 .. FLOORS]
        = sameFloorSearch inventory numRooms (fl # [fl + 1 .. FLOORS])"
    unfolding split using lower by (rule sameFloorSearch_skip)
  also have "\<dots> = Some ?result"
    using enough assms(1) by (simp add: slice0_nonneg Let_def)
  finally have search: "sameFloorSearch inventory numRooms [1 .. FLOORS] = Some ?result" .
  have "length (filter (\<lambda>room. floor' room = fl \<and> status room = AVAILABLE) inventory)
        \<le> length (filter (\<lambda>room. status room = AVAILABLE) inventory)"
    by (rule length_filter_conj_le)
  with assms(5) have available:
    "\<not> int (length (filter (\<lambda>room. status room = AVAILABLE) inventory)) < numRooms"
    by linarith
  have result: "findOptimalRooms inventory numRooms = Some ?result"
    using assms(2) available by (simp add: findOptimalRooms_def search)
  have len: "int (length ?selected) = numRooms"
    using enough assms(1) by simp
  have sorted: "sorted (map position ?selected)"
    using sorted_getAvailableRoomsOnFloor [of inventory fl]
    by (simp add: take_map [symmetric] sorted_wrt_take)
  have members: "\<forall>room \<in> set ?selected.
                   room \<in> set inventory \<and> floor' room = fl \<and> status room = AVAILABLE"
    using set_getAvailableRoomsOnFloor [of inventory fl] by (auto dest: in_set_takeD)
  have least: "\<forall>room \<in> set ?selected. \<forall>other \<in> set inventory.
                 floor' other = fl \<and> status other = AVAILABLE \<and> other \<notin> set ?selected
                 \<longrightarrow> position room \<le> position other"
  proof (intro ballI impI)
    fix room other
    assume "room \<in> set ?selected" "other \<in> set inventory"
      and other: "floor' other = fl \<and> status other = AVAILABLE \<and> other \<notin> set ?selected"
    then have "other \<in> set ?floorRooms"
      by (simp add: set_getAvailableRoomsOnFloor)
    with \<open>room \<in> set ?selected\<close> other show "position room \<le> position other"
      using take_sorted_least [OF sorted_getAvailableRoomsOnFloor] by blast
  qed
  from result len sorted members least show ?thesis
    by simp
qed

theorem sameFloor_lowest_floor_witness:
  "\<exists>result. findOptimalRooms
       [\<lparr>number = 203, floor' = 2, position = 3, status = AVAILABLE\<rparr>,
        \<lparr>number = 101, floor' = 1, position = 1, status = AVAILABLE\<rparr>,
        \<lparr>number = 102, floor' = 1, position = 2, status = OCCUPIED\<rparr>,
        \<lparr>number = 201, floor' = 2, position = 1, status = AVAILABLE\<rparr>,
        \<lparr>number = 202, floor' = 2, position = 2, status = AVAILABLE\<rparr>] 2 = Some result
     \<and> success result
     \<and> rooms result = [\<lparr>number = 201, floor' = 2, position = 1, status = AVAILABLE\<rparr>,
                        \<lparr>number = 202, floor' = 2, position = 2, status = AVAILABLE\<rparr>]
     \<and> message result = ''Booked 2 rooms on Floor 2''"
proof -
  let ?inventory =
    "[\<lparr>number = 203, floor' = 2, position = 3, status = AVAILABLE\<rparr>,
      \<lparr>number = 101, floor' = 1, position = 1, status = AVAILABLE\<rparr>,
      \<lparr>number = 102, floor' = 1, position = 2, status = OCCUPIED\<rparr>,
      \<lparr>number = 201, floor' = 2, position = 1, status = AVAILABLE\<rparr>,
      \<lparr>number = 202, floor' = 2, position = 2, status = AVAILABLE\<rparr>]"
  have h1: "(1::int) \<le> 2" and h2: "2 \<le> MAX_ROOMS_PER_BOOKING" and h3: "2 \<le> FLOORS"
    by (simp_all add: MAX_ROOMS_PER_BOOKING_def FLOORS_def)
  have h4: "2 \<le> int (length (filter (\<lambda>room. floor' room = 2 \<and> status room = AVAILABLE) ?inventory))"
    by simp
  have h5: "\<forall>f \<in> {1 ..< 2}.
              int (length (filter (\<lambda>room. floor' room = f \<and> status room = AVAILABLE) ?inventory)) < 2"
    by auto
  have selected: "take (nat 2) (getAvailableRoomsOnFloor ?inventory 2)
      = [\<lparr>number = 201, floor' = 2, position = 1, status = AVAILABLE\<rparr>,
         \<lparr>number = 202, floor' = 2, position = 2, status = AVAILABLE\<rparr>]"
    by code_simp
  have msg: "''Booked '' @ showInt 2 @ '' rooms on Floor '' @ showInt 2 = ''Booked 2 rooms on Floor 2''"
    by code_simp
  from sameFloor_lowest_floor [OF h1 h2 h1 h3 h4 h5] show ?thesis
    unfolding selected msg by blast
qed

section \<open>Strategy 2: the exhaustive search\<close>

text \<open>The loop of \<open>generateCombinations\<close> returns when every recursive call does, and
  then collects the results of the iterations in order.\<close>

lemma forEachM_collect:
  assumes "\<forall>i \<in> set idxs. g i = Some (h i)"
  shows "forEachM idxs (\<lambda>i acc. Option.bind (g i) (\<lambda>smaller. Some (acc @ F i smaller))) start
         = Some (start @ concat (map (\<lambda>i. F i (h i)) idxs))"
  using assms by (induction idxs arbitrary: start) simp_all

lemma subseq_Cons_split:
  "{c. subseq c rs \<and> length c = Suc n}
   = (\<Union>i \<in> {..< length rs - n}. (\<lambda>c. rs ! i # c) ` {c. subseq c (drop (Suc i) rs) \<and> length c = n})"
  (is "?L = ?R")
proof (intro equalityI subsetI)
  fix c
  assume "c \<in> ?L"
  then obtain x c' where c: "c = x # c'" and sub: "subseq (x # c') rs" and len: "length c' = n"
    by (cases c) auto
  from list_emb_ConsD [OF sub] obtain us vs where rs: "rs = us @ x # vs" and sub': "subseq c' vs"
    by blast
  have "n \<le> length vs"
    using list_emb_length [OF sub'] len by simp
  then have "length us < length rs - n"
    by (simp add: rs)
  moreover have "rs ! length us = x" "drop (Suc (length us)) rs = vs"
    by (simp_all add: rs)
  ultimately show "c \<in> ?R"
    using sub' len c by force
next
  fix c
  assume "c \<in> ?R"
  then obtain i c' where i: "i < length rs - n" and c: "c = rs ! i # c'"
    and sub': "subseq c' (drop (Suc i) rs)" and len: "length c' = n"
    by auto
  from i have "i < length rs" by simp
  then have rs: "rs = take i rs @ rs ! i # drop (Suc i) rs"
    by (rule id_take_nth_drop)
  have "subseq (rs ! i # c') (take i rs @ rs ! i # drop (Suc i) rs)"
    by (rule subseq_drop_many) (rule subseq_Cons2 [OF sub'])
  with rs have "subseq c rs"
    by (simp add: c)
  with len c show "c \<in> ?L"
    by simp
qed

lemma generateCombinations_returns:
  "\<exists>combinations. generateCombinations rs (int (Suc k)) = Some combinations
      \<and> set combinations = {c. subseq c rs \<and> length c = Suc k}"
proof (induction k arbitrary: rs)
  case 0
  have "generateCombinations rs (int (Suc 0)) = Some (map (\<lambda>room. [room]) rs)"
    by (subst generateCombinations.simps) simp
  moreover have "{c. subseq c rs \<and> length c = Suc 0} = (\<lambda>room. [room]) ` set rs"
  proof (intro equalityI subsetI)
    fix c
    assume "c \<in> {c. subseq c rs \<and> length c = Suc 0}"
    then obtain x where "c = [x]" and "subseq [x] rs"
      by (cases c) auto
    then show "c \<in> (\<lambda>room. [room]) ` set rs"
      by (simp add: subseq_singleton_left)
  next
    fix c
    assume "c \<in> (\<lambda>room. [room]) ` set rs"
    then obtain x where "c = [x]" and "x \<in> set rs"
      by auto
    then show "c \<in> {c. subseq c rs \<and> length c = Suc 0}"
      by (simp add: subseq_singleton_left)
  qed
  then have "set (map (\<lambda>room. [room]) rs) = {c. subseq c rs \<and> length c = Suc 0}"
    by simp
  ultimately show ?case
    by blast
next
  case (Suc k)
  have "\<forall>i. \<exists>smaller. generateCombinations (drop (i + 1) rs) (int (Suc k)) = Some smaller
          \<and> set smaller = {c. subseq c (drop (i + 1) rs) \<and> length c = Suc k}"
    using Suc.IH by blast
  then obtain h where smaller: "\<And>i. generateCombinations (drop (i + 1) rs) (int (Suc k)) = Some (h i)"
    and set_smaller: "\<And>i. set (h i) = {c. subseq c (drop (i + 1) rs) \<and> length c = Suc k}"
    by metis
  have bound: "nat (int (length rs) - int (Suc (Suc k)) + 1) = length rs - Suc k"
    by simp
  have eq_one: "(int (Suc (Suc k)) = 1) = False" "int (Suc (Suc k)) - 1 = int (Suc k)"
    by simp_all
  have "generateCombinations rs (int (Suc (Suc k)))
        = forEachM [0 ..< length rs - Suc k]
            (\<lambda>i combinations.
               Option.bind (generateCombinations (drop (i + 1) rs) (int (Suc k)))
                 (\<lambda>smaller. Some (combinations @ map (\<lambda>combo. rs ! i # combo) smaller)))
            []"
    by (subst generateCombinations.simps) (simp only: bound eq_one if_False refl)
  also have "\<dots> = Some ([] @ concat (map (\<lambda>i. map (\<lambda>combo. rs ! i # combo) (h i)) [0 ..< length rs - Suc k]))"
    using forEachM_collect [where g = "\<lambda>i. generateCombinations (drop (i + 1) rs) (int (Suc k))"
        and h = h and F = "\<lambda>i smaller. map (\<lambda>combo. rs ! i # combo) smaller"
        and start = "[]" and idxs = "[0 ..< length rs - Suc k]"] smaller
    by blast
  finally have "generateCombinations rs (int (Suc (Suc k)))
        = Some (concat (map (\<lambda>i. map (\<lambda>combo. rs ! i # combo) (h i)) [0 ..< length rs - Suc k]))"
    by simp
  moreover have "set (concat (map (\<lambda>i. map (\<lambda>combo. rs ! i # combo) (h i)) [0 ..< length rs - Suc k]))
        = {c. subseq c rs \<and> length c = Suc (Suc k)}"
    unfolding subseq_Cons_split [of rs "Suc k"] by (simp add: set_smaller atLeast0LessThan del: upt_Suc)
  ultimately show ?case
    by blast
qed


text \<open>A call with a size below 1 does not return: its loop starts with a recursive call on
  a smaller size.\<close>

lemma generateCombinations_Some_positive:
  assumes "generateCombinations rs size' = Some combinations"
  shows "1 \<le> size'"
proof (rule generateCombinations.raw_induct [where P = "\<lambda>rs size' combinations. 1 \<le> size'", OF _ assms],
    goal_cases)
  case (1 call rs size' combinations)
  show ?case
  proof (rule ccontr)
    assume "\<not> 1 \<le> size'"
    then have nonpositive: "size' \<le> 0"
      by simp
    then have "[0 ..< nat (int (length rs) - size' + 1)]
               = 0 # [1 ..< nat (int (length rs) - size' + 1)]"
      by (simp add: upt_conv_Cons)
    with "1"(2) nonpositive obtain smaller
      where "call (drop (0 + 1) rs) (size' - 1) = Some smaller"
      by (auto split: Option.bind_splits)
    from "1"(1) [OF this] nonpositive show False
      by simp
  qed
qed

lemma keepBetter_first:
  "keepBetter x ([], POSITIVE_INFINITY) = (x, Finite (calculateTotalTravelTime x))"
  by (simp add: keepBetter_def)

lemma keepBetter_Finite:
  "keepBetter x (best, Finite t)
   = (if calculateTotalTravelTime x < t then (x, Finite (calculateTotalTravelTime x)) else (best, Finite t))"
  by (simp add: keepBetter_def)

lemma fold_keepBetter_first_min:
  assumes "combinations \<noteq> []"
  shows "\<exists>i < length combinations.
           fold keepBetter combinations ([], POSITIVE_INFINITY)
             = (combinations ! i, Finite (calculateTotalTravelTime (combinations ! i)))
           \<and> (\<forall>j < length combinations.
                 calculateTotalTravelTime (combinations ! i) \<le> calculateTotalTravelTime (combinations ! j))
           \<and> (\<forall>j < i.
                 calculateTotalTravelTime (combinations ! i) < calculateTotalTravelTime (combinations ! j))"
  using assms
proof (induction combinations rule: rev_nonempty_induct)
  case (single x)
  show ?case by (simp add: keepBetter_first)
next
  case (snoc x xs)
  let ?t = calculateTotalTravelTime
  from snoc.IH obtain i where i: "i < length xs"
    and best: "fold keepBetter xs ([], POSITIVE_INFINITY) = (xs ! i, Finite (?t (xs ! i)))"
    and least: "\<forall>j < length xs. ?t (xs ! i) \<le> ?t (xs ! j)"
    and first: "\<forall>j < i. ?t (xs ! i) < ?t (xs ! j)"
    by blast
  show ?case
  proof (cases "?t x < ?t (xs ! i)")
    case True
    have "fold keepBetter (xs @ [x]) ([], POSITIVE_INFINITY)
          = ((xs @ [x]) ! length xs, Finite (?t ((xs @ [x]) ! length xs)))"
      using True by (simp add: best keepBetter_Finite)
    moreover have "\<forall>j < length (xs @ [x]). ?t ((xs @ [x]) ! length xs) \<le> ?t ((xs @ [x]) ! j)"
      using True least by (auto simp: nth_append less_Suc_eq intro: less_imp_le order.trans)
    moreover have "\<forall>j < length xs. ?t ((xs @ [x]) ! length xs) < ?t ((xs @ [x]) ! j)"
      using True least by (auto simp: nth_append intro: less_le_trans)
    ultimately show ?thesis
      by (intro exI [of _ "length xs"]) simp
  next
    case False
    have "fold keepBetter (xs @ [x]) ([], POSITIVE_INFINITY)
          = ((xs @ [x]) ! i, Finite (?t ((xs @ [x]) ! i)))"
      using False i by (simp add: best keepBetter_Finite nth_append)
    moreover have "\<forall>j < length (xs @ [x]). ?t ((xs @ [x]) ! i) \<le> ?t ((xs @ [x]) ! j)"
      using False least i by (auto simp: nth_append less_Suc_eq)
    moreover have "\<forall>j < i. ?t ((xs @ [x]) ! i) < ?t ((xs @ [x]) ! j)"
      using first i by (simp add: nth_append)
    ultimately show ?thesis
      using i by (intro exI [of _ i]) simp
  qed
qed

text \<open>
  C1. Let the request be between 1 and 5 rooms, with at least that many rooms Available, no
  floor of 1 to 10 with that many Available rooms, and at most 3 rooms requested or at most
  20 rooms Available. Then the allocation succeeds; its travel time is that of the returned
  rooms and is the minimum of \<open>calculateTotalTravelTime\<close> over all subsequences of the
  Available rooms (in inventory order) of the requested length. These subsequences are what
  \<open>generateCombinations\<close> enumerates, and the returned rooms are the first combination of
  the enumeration with that travel time: every earlier one takes strictly longer.
\<close>

theorem exhaustive_minimum:
  assumes "1 \<le> numRooms" and "numRooms \<le> MAX_ROOMS_PER_BOOKING"
    and "numRooms \<le> int (length (filter (\<lambda>room. status room = AVAILABLE) inventory))"
    and "\<forall>f \<in> {1 .. FLOORS}.
           int (length (filter (\<lambda>room. floor' room = f \<and> status room = AVAILABLE) inventory)) < numRooms"
    and "numRooms \<le> 3 \<or> length (filter (\<lambda>room. status room = AVAILABLE) inventory) \<le> 20"
  shows "\<exists>result combinations i.
           findOptimalRooms inventory numRooms = Some result
           \<and> success result
           \<and> totalTravelTime result = Finite (calculateTotalTravelTime (rooms result))
           \<and> totalTravelTime result
               = Finite (Min (calculateTotalTravelTime `
                   {c. subseq c (filter (\<lambda>room. status room = AVAILABLE) inventory)
                       \<and> int (length c) = numRooms}))
           \<and> generateCombinations (filter (\<lambda>room. status room = AVAILABLE) inventory) numRooms
               = Some combinations
           \<and> set combinations
               = {c. subseq c (filter (\<lambda>room. status room = AVAILABLE) inventory)
                     \<and> int (length c) = numRooms}
           \<and> i < length combinations
           \<and> rooms result = combinations ! i
           \<and> (\<forall>j < i. calculateTotalTravelTime (combinations ! i)
                          < calculateTotalTravelTime (combinations ! j))"
proof -
  let ?available = "filter (\<lambda>room. status room = AVAILABLE) inventory"
  let ?t = calculateTotalTravelTime
  let ?all = "{c. subseq c ?available \<and> int (length c) = numRooms}"
  define k where "k = nat (numRooms - 1)"
  have k: "numRooms = int (Suc k)"
    using assms(1) by (simp add: k_def)
  have size_eq: "(int (length c) = numRooms) = (length c = Suc k)" for c :: "Room list"
    unfolding k by (simp only: of_nat_eq_iff)
  from generateCombinations_returns [of ?available k] obtain combinations
    where gen: "generateCombinations ?available numRooms = Some combinations"
      and set_gen: "set combinations = ?all"
    unfolding size_eq unfolding k by blast
  have "take (Suc k) ?available \<in> ?all"
    using assms(3) unfolding size_eq by (simp add: k prefix_imp_subseq take_is_prefix)
  then have nonempty: "combinations \<noteq> []"
    using set_gen by auto
  from fold_keepBetter_first_min [OF nonempty] obtain i where i: "i < length combinations"
    and best: "fold keepBetter combinations ([], POSITIVE_INFINITY)
               = (combinations ! i, Finite (?t (combinations ! i)))"
    and least: "\<forall>j < length combinations. ?t (combinations ! i) \<le> ?t (combinations ! j)"
    and first: "\<forall>j < i. ?t (combinations ! i) < ?t (combinations ! j)"
    by blast
  have member: "combinations ! i \<in> ?all"
    using i set_gen nth_mem by blast
  then have len: "int (length (combinations ! i)) = numRooms"
    by simp
  have cross: "crossFloorSearch ?available numRooms
               = Some (combinations ! i, Finite (?t (combinations ! i)))"
    using assms(5) by (simp add: crossFloorSearch_def gen best)
  have none: "sameFloorSearch inventory numRooms [1 .. FLOORS] = None"
    using assms(4) by (simp add: sameFloorSearch_None length_getAvailableRoomsOnFloor)
  let ?result = "\<lparr>rooms = combinations ! i, totalTravelTime = Finite (?t (combinations ! i)),
                   success = True,
                   message = ''Booked '' @ showInt numRooms @ '' rooms across multiple floors''\<rparr>"
  have result: "findOptimalRooms inventory numRooms = Some ?result"
    using assms(2,3) by (simp add: findOptimalRooms_def none cross len)
  have "finite (?t ` ?all)"
    unfolding set_gen [symmetric] by simp
  moreover have "?t (combinations ! i) \<le> y" if "y \<in> ?t ` ?all" for y
    using that least unfolding set_gen [symmetric] by (auto simp: in_set_conv_nth)
  moreover have "?t (combinations ! i) \<in> ?t ` ?all"
    using member by (rule imageI)
  ultimately have minimum: "Min (?t ` ?all) = ?t (combinations ! i)"
    by (rule Min_eqI)
  show ?thesis
    by (intro exI [of _ ?result] exI [of _ combinations] exI [of _ i])
      (simp add: result minimum gen set_gen i first)
qed

theorem exhaustive_minimum_witness:
  "\<exists>result. findOptimalRooms
       [\<lparr>number = 101, floor' = 1, position = 1, status = AVAILABLE\<rparr>,
        \<lparr>number = 305, floor' = 3, position = 5, status = AVAILABLE\<rparr>,
        \<lparr>number = 102, floor' = 1, position = 2, status = OCCUPIED\<rparr>,
        \<lparr>number = 201, floor' = 2, position = 1, status = AVAILABLE\<rparr>] 2 = Some result
     \<and> success result
     \<and> rooms result = [\<lparr>number = 101, floor' = 1, position = 1, status = AVAILABLE\<rparr>,
                        \<lparr>number = 201, floor' = 2, position = 1, status = AVAILABLE\<rparr>]
     \<and> totalTravelTime result = Finite 2
     \<and> totalTravelTime result
         = Finite (Min (calculateTotalTravelTime `
             {c. subseq c [\<lparr>number = 101, floor' = 1, position = 1, status = AVAILABLE\<rparr>,
                           \<lparr>number = 305, floor' = 3, position = 5, status = AVAILABLE\<rparr>,
                           \<lparr>number = 201, floor' = 2, position = 1, status = AVAILABLE\<rparr>]
                 \<and> int (length c) = 2}))"
proof -
  let ?inventory =
    "[\<lparr>number = 101, floor' = 1, position = 1, status = AVAILABLE\<rparr>,
      \<lparr>number = 305, floor' = 3, position = 5, status = AVAILABLE\<rparr>,
      \<lparr>number = 102, floor' = 1, position = 2, status = OCCUPIED\<rparr>,
      \<lparr>number = 201, floor' = 2, position = 1, status = AVAILABLE\<rparr>]"
  have available: "filter (\<lambda>room. status room = AVAILABLE) ?inventory
      = [\<lparr>number = 101, floor' = 1, position = 1, status = AVAILABLE\<rparr>,
         \<lparr>number = 305, floor' = 3, position = 5, status = AVAILABLE\<rparr>,
         \<lparr>number = 201, floor' = 2, position = 1, status = AVAILABLE\<rparr>]"
    by simp
  have h1: "(1::int) \<le> 2" and h2: "2 \<le> MAX_ROOMS_PER_BOOKING"
    by (simp_all add: MAX_ROOMS_PER_BOOKING_def)
  have h3: "2 \<le> int (length (filter (\<lambda>room. status room = AVAILABLE) ?inventory))"
    by simp
  have h4: "\<forall>f \<in> {1 .. FLOORS}.
              int (length (filter (\<lambda>room. floor' room = f \<and> status room = AVAILABLE) ?inventory)) < 2"
    by simp
  have h5: "(2::int) \<le> 3 \<or> length (filter (\<lambda>room. status room = AVAILABLE) ?inventory) \<le> 20"
    by simp
  have run: "map_option (\<lambda>result. (rooms result, totalTravelTime result)) (findOptimalRooms ?inventory 2)
      = Some ([\<lparr>number = 101, floor' = 1, position = 1, status = AVAILABLE\<rparr>,
               \<lparr>number = 201, floor' = 2, position = 1, status = AVAILABLE\<rparr>], Finite 2)"
    by code_simp
  from exhaustive_minimum [OF h1 h2 h3 h4 h5] run show ?thesis
    unfolding available by auto
qed

section \<open>The greedy choice and the selected rooms\<close>

lemma subseq_distinct_map:
  assumes "subseq ys xs" and "distinct (map f xs)"
  shows "distinct (map f ys)"
proof -
  have "map f ys \<in> set (subseqs (map f xs))"
    using assms(1) by (simp add: subseq_map)
  then show ?thesis
    using assms(2) by (rule subseqs_distinctD)
qed

lemma subseq_subset:
  assumes "subseq ys xs"
  shows "set ys \<subseteq> set xs"
  using assms by (auto elim: list_emb_set)

lemma subseq_take: "subseq (take k xs) xs"
  by (simp add: prefix_imp_subseq take_is_prefix)

lemma fold_keepBetter_member:
  "fst (fold keepBetter combinations best) \<in> insert (fst best) (set combinations)"
proof (induction combinations arbitrary: best)
  case Nil
  show ?case by simp
next
  case (Cons x xs)
  have "fst (keepBetter x best) = x \<or> fst (keepBetter x best) = fst best"
    by (simp add: keepBetter_def Let_def)
  with Cons.IH [of "keepBetter x best"] show ?case
    by auto
qed

text \<open>
  C6. Let the request be for 4 or 5 rooms, with more than 20 rooms Available and no floor of
  1 to 10 with that many Available rooms. Then the allocation succeeds with the first
  \<open>numRooms\<close> of the Available rooms sorted by floor and then position: they are Available
  rooms in ascending (floor, position) order, and no Available room that was left out comes
  before a selected one in that order.
\<close>

theorem greedy_selection:
  assumes "4 \<le> numRooms" and "numRooms \<le> MAX_ROOMS_PER_BOOKING"
    and "20 < length (filter (\<lambda>room. status room = AVAILABLE) inventory)"
    and "\<forall>f \<in> {1 .. FLOORS}.
           int (length (filter (\<lambda>room. floor' room = f \<and> status room = AVAILABLE) inventory)) < numRooms"
  shows "\<exists>result.
           findOptimalRooms inventory numRooms = Some result
           \<and> success result
           \<and> rooms result
               = take (nat numRooms)
                   (sortBy byFloorThenPosition (filter (\<lambda>room. status room = AVAILABLE) inventory))
           \<and> totalTravelTime result = Finite (calculateTotalTravelTime (rooms result))
           \<and> int (length (rooms result)) = numRooms
           \<and> sorted (map (\<lambda>room. (floor' room, position room)) (rooms result))
           \<and> (\<forall>room \<in> set (rooms result). room \<in> set inventory \<and> status room = AVAILABLE)
           \<and> (\<forall>room \<in> set (rooms result). \<forall>other \<in> set inventory.
                 status other = AVAILABLE \<and> other \<notin> set (rooms result)
                 \<longrightarrow> (floor' room, position room) \<le> (floor' other, position other))"
proof -
  let ?available = "filter (\<lambda>room. status room = AVAILABLE) inventory"
  let ?sorted = "sortBy byFloorThenPosition ?available"
  let ?best = "take (nat numRooms) ?sorted"
  let ?key = "\<lambda>room. (floor' room, position room)"
  let ?result = "\<lparr>rooms = ?best, totalTravelTime = Finite (calculateTotalTravelTime ?best),
                   success = True,
                   message = ''Booked '' @ showInt numRooms @ '' rooms across multiple floors''\<rparr>"
  have cap: "numRooms \<le> 5"
    using assms(2) by (simp add: MAX_ROOMS_PER_BOOKING_def)
  have none: "sameFloorSearch inventory numRooms [1 .. FLOORS] = None"
    using assms(4) by (simp add: sameFloorSearch_None length_getAvailableRoomsOnFloor)
  have cross: "crossFloorSearch ?available numRooms = Some (?best, Finite (calculateTotalTravelTime ?best))"
    using assms(1,3) by (simp add: crossFloorSearch_def slice0_nonneg Let_def)
  have len: "int (length ?best) = numRooms"
    using assms(1,3) cap by simp
  have result: "findOptimalRooms inventory numRooms = Some ?result"
    using assms(1,2,3) cap by (simp add: findOptimalRooms_def Let_def none cross)
  have sorted_all: "sorted (map ?key ?sorted)"
    by (simp add: sortBy_byFloorThenPosition)
  then have sorted: "sorted (map ?key ?best)"
    by (simp add: take_map [symmetric] sorted_wrt_take)
  have members: "\<forall>room \<in> set ?best. room \<in> set inventory \<and> status room = AVAILABLE"
    by (auto dest: in_set_takeD)
  have least: "\<forall>room \<in> set ?best. \<forall>other \<in> set inventory.
                 status other = AVAILABLE \<and> other \<notin> set ?best \<longrightarrow> ?key room \<le> ?key other"
  proof (intro ballI impI)
    fix room other
    assume room: "room \<in> set ?best" and "other \<in> set inventory"
      and other: "status other = AVAILABLE \<and> other \<notin> set ?best"
    then have "other \<in> set ?sorted"
      by simp
    with room other show "?key room \<le> ?key other"
      using take_sorted_least [OF sorted_all] by blast
  qed
  define r where "r = ?result"
  have returned: "findOptimalRooms inventory numRooms = Some r"
    by (simp only: r_def result)
  have fields: "success r" "rooms r = ?best"
    "totalTravelTime r = Finite (calculateTotalTravelTime (rooms r))"
    by (simp_all add: r_def)
  show ?thesis
  proof (intro exI [of _ r] conjI)
    show "int (length (rooms r)) = numRooms"
      unfolding fields(2) by (rule len)
    show "sorted (map ?key (rooms r))"
      unfolding fields(2) by (rule sorted)
    show "\<forall>room \<in> set (rooms r). room \<in> set inventory \<and> status room = AVAILABLE"
      unfolding fields(2) by (rule members)
    show "\<forall>room \<in> set (rooms r). \<forall>other \<in> set inventory.
            status other = AVAILABLE \<and> other \<notin> set (rooms r) \<longrightarrow> ?key room \<le> ?key other"
      unfolding fields(2) by (rule least)
  qed (fact returned fields)+
qed

theorem greedy_selection_witness:
  "\<exists>result.
     findOptimalRooms
       (map (\<lambda>room. room\<lparr>status := (if position room \<le> 3 then AVAILABLE else OCCUPIED)\<rparr>)
          initializeRooms) 4 = Some result
     \<and> success result
     \<and> map number (rooms result) = [101, 102, 103, 201]
     \<and> sorted (map (\<lambda>room. (floor' room, position room)) (rooms result))"
proof -
  let ?inventory =
    "map (\<lambda>room. room\<lparr>status := (if position room \<le> 3 then AVAILABLE else OCCUPIED)\<rparr>)
       initializeRooms"
  have h1: "(4::int) \<le> 4" and h2: "4 \<le> MAX_ROOMS_PER_BOOKING"
    by (simp_all add: MAX_ROOMS_PER_BOOKING_def)
  have h3: "20 < length (filter (\<lambda>room. status room = AVAILABLE) ?inventory)"
    by code_simp
  have "list_all (\<lambda>f. int (length (filter (\<lambda>room. floor' room = f \<and> status room = AVAILABLE)
                                  ?inventory)) < 4) [1 .. FLOORS]"
    by code_simp
  then have h4: "\<forall>f \<in> {1 .. FLOORS}.
      int (length (filter (\<lambda>room. floor' room = f \<and> status room = AVAILABLE) ?inventory)) < 4"
    by (simp add: list_all_iff)
  have selected: "map number (take (nat 4)
      (sortBy byFloorThenPosition (filter (\<lambda>room. status room = AVAILABLE) ?inventory)))
      = [101, 102, 103, 201]"
    by code_simp
  from greedy_selection [OF h1 h2 h3 h4] obtain result
    where returned: "findOptimalRooms ?inventory 4 = Some result" "success result"
      and chosen: "rooms result = take (nat 4)
        (sortBy byFloorThenPosition (filter (\<lambda>room. status room = AVAILABLE) ?inventory))"
      and ascending: "sorted (map (\<lambda>room. (floor' room, position room)) (rooms result))"
    by blast
  have numbers: "map number (rooms result) = [101, 102, 103, 201]"
    unfolding chosen by (rule selected)
  show ?thesis
    by (intro exI [of _ result] conjI) (fact returned ascending numbers)+
qed

text \<open>
  C9. On an inventory whose room numbers are distinct, whenever the allocation returns a
  result with \<open>success = True\<close>, for any request, no room number occurs twice among the
  result's rooms, and every one of them is a room of the inventory with status Available.
  The proof goes through the three strategies.
\<close>

theorem selection_distinct_available:
  assumes "distinct (map number inventory)"
    and "findOptimalRooms inventory numRooms = Some result"
    and "success result"
  shows "distinct (map number (rooms result))
         \<and> (\<forall>room \<in> set (rooms result). room \<in> set inventory \<and> status room = AVAILABLE)"
proof -
  let ?available = "filter (\<lambda>room. status room = AVAILABLE) inventory"
  have available: "distinct (map number ?available)"
    using assms(1) by (rule distinct_map_filter)
  have from_available: "distinct (map number (rooms result))
         \<and> (\<forall>room \<in> set (rooms result). room \<in> set inventory \<and> status room = AVAILABLE)"
    if "distinct (map number xs)" and "set xs \<subseteq> set ?available" and "subseq (rooms result) xs" for xs
    using that subseq_distinct_map [of "rooms result" xs number] subseq_subset [of "rooms result" xs]
    by auto
  from assms(2,3) have cap: "\<not> MAX_ROOMS_PER_BOOKING < numRooms"
    and enough: "\<not> int (length ?available) < numRooms"
    by (auto simp: findOptimalRooms_def Let_def split: if_splits)
  show ?thesis
  proof (cases "sameFloorSearch inventory numRooms [1 .. FLOORS]")
    case (Some same)
    with assms(2) cap enough have "same = result"
      by (simp add: findOptimalRooms_def Let_def)
    with sameFloorSearch_Some [OF Some] obtain fl
      where "rooms result = slice0 (getAvailableRoomsOnFloor inventory fl) numRooms"
      by blast
    then obtain k where "rooms result = take k (getAvailableRoomsOnFloor inventory fl)"
      using slice0_take [of "getAvailableRoomsOnFloor inventory fl" numRooms] by auto
    then have "subseq (rooms result) (getAvailableRoomsOnFloor inventory fl)"
      by (simp add: subseq_take)
    moreover have "distinct (map number (getAvailableRoomsOnFloor inventory fl))"
      using assms(1) by (simp add: getAvailableRoomsOnFloor_def distinct_map_filter)
    moreover have "set (getAvailableRoomsOnFloor inventory fl) \<subseteq> set ?available"
      by (auto simp: set_getAvailableRoomsOnFloor)
    ultimately show ?thesis
      using from_available by blast
  next
    case None
    then have "int (length (getAvailableRoomsOnFloor inventory 1)) < numRooms"
      by (simp add: sameFloorSearch_None FLOORS_def)
    then have positive: "1 \<le> numRooms"
      by simp
    from assms(2,3) cap enough None obtain best minTravelTime
      where cross: "crossFloorSearch ?available numRooms = Some (best, minTravelTime)"
        and best: "rooms result = best" and len: "int (length best) = numRooms"
      by (auto simp: findOptimalRooms_def Let_def split: if_splits Option.bind_splits)
    show ?thesis
    proof (cases "numRooms \<le> 3 \<or> length ?available \<le> 20")
      case True
      define k where "k = nat (numRooms - 1)"
      have k: "numRooms = int (Suc k)"
        using positive by (simp add: k_def)
      from generateCombinations_returns [of ?available k] obtain combinations
        where gen: "generateCombinations ?available numRooms = Some combinations"
          and set_gen: "set combinations = {c. subseq c ?available \<and> length c = Suc k}"
        unfolding k by blast
      from cross True have "best = fst (fold keepBetter combinations ([], POSITIVE_INFINITY))"
        by (simp add: crossFloorSearch_def gen)
      with fold_keepBetter_member [of combinations "([], POSITIVE_INFINITY)"]
      have "best = [] \<or> best \<in> set combinations"
        by auto
      with len positive have "best \<in> set combinations"
        by auto
      then have "subseq (rooms result) ?available"
        by (simp add: set_gen best)
      with available show ?thesis
        using from_available by blast
    next
      case False
      with cross have "best = slice0 (sortBy byFloorThenPosition ?available) numRooms"
        by (simp add: crossFloorSearch_def Let_def)
      then obtain k where "rooms result = take k (sortBy byFloorThenPosition ?available)"
        using slice0_take [of "sortBy byFloorThenPosition ?available" numRooms] best by auto
      then have "subseq (rooms result) (sortBy byFloorThenPosition ?available)"
        by (simp add: subseq_take)
      moreover have "distinct (map number (sortBy byFloorThenPosition ?available))"
        using available by simp
      moreover have "set (sortBy byFloorThenPosition ?available) \<subseteq> set ?available"
        by simp
      ultimately show ?thesis
        using from_available by blast
    qed
  qed
qed

theorem selection_distinct_available_witness:
  "\<exists>result. findOptimalRooms
       [\<lparr>number = 101, floor' = 1, position = 1, status = AVAILABLE\<rparr>,
        \<lparr>number = 305, floor' = 3, position = 5, status = AVAILABLE\<rparr>,
        \<lparr>number = 102, floor' = 1, position = 2, status = SELECTED\<rparr>,
        \<lparr>number = 201, floor' = 2, position = 1, status = AVAILABLE\<rparr>] 3 = Some result
     \<and> success result
     \<and> map number (rooms result) = [101, 305, 201]
     \<and> distinct (map number (rooms result))
     \<and> (\<forall>room \<in> set (rooms result). status room = AVAILABLE)"
proof -
  let ?inventory =
    "[\<lparr>number = 101, floor' = 1, position = 1, status = AVAILABLE\<rparr>,
      \<lparr>number = 305, floor' = 3, position = 5, status = AVAILABLE\<rparr>,
      \<lparr>number = 102, floor' = 1, position = 2, status = SELECTED\<rparr>,
      \<lparr>number = 201, floor' = 2, position = 1, status = AVAILABLE\<rparr>]"
  let ?result =
    "\<lparr>rooms = [\<lparr>number = 101, floor' = 1, position = 1, status = AVAILABLE\<rparr>,
               \<lparr>number = 305, floor' = 3, position = 5, status = AVAILABLE\<rparr>,
               \<lparr>number = 201, floor' = 2, position = 1, status = AVAILABLE\<rparr>],
      totalTravelTime = Finite 4, success = True,
      message = ''Booked 3 rooms across multiple floors''\<rparr>"
  have h1: "distinct (map number ?inventory)"
    by simp
  have h2: "findOptimalRooms ?inventory 3 = Some ?result"
    by code_simp
  have h3: "success ?result"
    by simp
  from selection_distinct_available [OF h1 h2 h3]
  have "distinct (map number (rooms ?result))"
    and "\<forall>room \<in> set (rooms ?result). status room = AVAILABLE"
    by blast+
  then show ?thesis
    using h2 h3 by (intro exI [of _ ?result]) simp
qed

text \<open>The inventories that the component holds have distinct room numbers: the initial one
  has, and committing a booking or randomizing the occupancy keeps the numbers.\<close>

lemma initializeRooms_numbers_distinct: "distinct (map number initializeRooms)"
  by code_simp

lemma commitBooking_numbers: "map number (commitBooking inventory result) = map number inventory"
  by (simp add: commitBooking_def Let_def comp_def)

lemma generateRandomOccupancy_numbers:
  "map number (roomsState (generateRandomOccupancy random s)) = map number (roomsState s)"
  by (rule nth_equalityI) (simp_all add: generateRandomOccupancy_def nth_enumerate_eq)

section \<open>The result of an allocation\<close>

text \<open>For a request that is not negative, a result with \<open>success = True\<close> has exactly the
  requested number of rooms and the travel time of these rooms, and a result with
  \<open>success = False\<close> has no rooms and travel time 0.\<close>

lemma findOptimalRooms_postcondition:
  assumes "0 \<le> numRooms" and "findOptimalRooms inventory numRooms = Some result"
  shows "(success result \<longrightarrow>
            int (length (rooms result)) = numRooms
            \<and> totalTravelTime result = Finite (calculateTotalTravelTime (rooms result)))
         \<and> (\<not> success result \<longrightarrow> rooms result = [] \<and> totalTravelTime result = Finite 0)"
proof (cases "MAX_ROOMS_PER_BOOKING < numRooms
              \<or> int (length (filter (\<lambda>room. status room = AVAILABLE) inventory)) < numRooms")
  case True
  with assms(2) show ?thesis
    by (auto simp: findOptimalRooms_def Let_def split: if_splits)
next
  case False
  let ?available = "filter (\<lambda>room. status room = AVAILABLE) inventory"
  show ?thesis
  proof (cases "sameFloorSearch inventory numRooms [1 .. FLOORS]")
    case (Some same)
    with assms(2) False have "same = result"
      by (simp add: findOptimalRooms_def Let_def)
    with sameFloorSearch_Some [OF Some] obtain fl
      where "numRooms \<le> int (length (getAvailableRoomsOnFloor inventory fl))"
        and "rooms result = slice0 (getAvailableRoomsOnFloor inventory fl) numRooms"
        and "totalTravelTime result = Finite (calculateTotalTravelTime (rooms result))"
        and "success result"
      by blast
    with assms(1) show ?thesis
      by (simp add: slice0_nonneg)
  next
    case None
    then have "int (length (getAvailableRoomsOnFloor inventory 1)) < numRooms"
      by (simp add: sameFloorSearch_None FLOORS_def)
    then have positive: "1 \<le> numRooms"
      by simp
    from assms(2) False None obtain best minTravelTime
      where cross: "crossFloorSearch ?available numRooms = Some (best, minTravelTime)"
        and result: "result = (if int (length best) = numRooms then
            \<lparr>rooms = best, totalTravelTime = minTravelTime, success = True,
             message = ''Booked '' @ showInt numRooms @ '' rooms across multiple floors''\<rparr>
          else \<lparr>rooms = [], totalTravelTime = Finite 0, success = False,
                message = ''Unable to find optimal room combination''\<rparr>)"
      by (auto simp: findOptimalRooms_def Let_def split: if_splits Option.bind_splits)
    have "minTravelTime = Finite (calculateTotalTravelTime best)" if "int (length best) = numRooms"
    proof (cases "numRooms \<le> 3 \<or> length ?available \<le> 20")
      case True
      with cross obtain combinations
        where best: "fold keepBetter combinations ([], POSITIVE_INFINITY) = (best, minTravelTime)"
        by (auto simp: crossFloorSearch_def split: Option.bind_splits)
      have "combinations \<noteq> []"
        using best that positive by auto
      from fold_keepBetter_first_min [OF this] best show ?thesis
        by auto
    next
      case False
      with cross show ?thesis
        by (auto simp: crossFloorSearch_def Let_def)
    qed
    with result show ?thesis
      by simp
  qed
qed

text \<open>
  C3. A result with \<open>success = True\<close> is to have exactly the requested number of rooms. At a
  negative request this fails: on the fresh inventory a request for \<open>-3\<close> rooms passes both
  guards, Strategy 1 accepts floor 1, and \<^verbatim>\<open>slice(0, -3)\<close> keeps all but the last three of the
  ten rooms of the floor, so the result has \<open>success = True\<close> and seven rooms.
\<close>

theorem findOptimalRooms_negative_request:
  "map_option (\<lambda>result. (success result, map number (rooms result), message result))
     (findOptimalRooms initializeRooms (- 3))
   = Some (True, [101, 102, 103, 104, 105, 106, 107], ''Booked -3 rooms on Floor 1'')"
  by code_simp

end
